theory Spec2Isabelle
  imports Main "HOL-Library.Multiset" "HOL-Library.Sublist"
begin

section \<open>TabEx: the view model of the popup\<close>

text \<open>
  The development embeds the script of the popup (the later of the two revisions in the
  repository, the one with window sorting and collapsing). Strings are lists of
  characters; tab, window and group identities are integers; timestamps are the integer
  milliseconds that \<^verbatim>\<open>Date.now()\<close> returns.
\<close>

subsection \<open>Records built by the aggregator\<close>

record group_ref =
  group_title :: string
  color :: string

record tab =
  tab_id :: int
  title :: string
  url :: string
  favIconUrl :: string
  active :: bool
  pinned :: bool
  groupId :: int
  group :: "group_ref option"
  lastAccessed :: "int option"
  tab_windowId :: int

record window =
  windowId :: int
  focused :: bool
  tabs :: "tab list"

subsection \<open>The numbers a comparator can return\<close>

text \<open>
  \<^verbatim>\<open>Math.max()\<close> of no arguments is \<^verbatim>\<open>-Infinity\<close>, and the difference of two such
  values is \<^verbatim>\<open>NaN\<close>; the comparator of the \<^verbatim>\<open>last-accessed\<close> strategy can return
  both, so they are part of the model.
\<close>

datatype number = NegInfinity | Num int | PosInfinity | NaN

fun num_max :: "number \<Rightarrow> number \<Rightarrow> number" where
  "num_max NaN _ = NaN"
| "num_max _ NaN = NaN"
| "num_max PosInfinity _ = PosInfinity"
| "num_max _ PosInfinity = PosInfinity"
| "num_max NegInfinity y = y"
| "num_max x NegInfinity = x"
| "num_max (Num a) (Num b) = Num (max a b)"

definition Math_max :: "number list \<Rightarrow> number" where
  "Math_max xs = foldl num_max NegInfinity xs"

fun num_sub :: "number \<Rightarrow> number \<Rightarrow> number" where
  "num_sub NaN _ = NaN"
| "num_sub _ NaN = NaN"
| "num_sub (Num a) (Num b) = Num (a - b)"
| "num_sub PosInfinity PosInfinity = NaN"
| "num_sub NegInfinity NegInfinity = NaN"
| "num_sub PosInfinity _ = PosInfinity"
| "num_sub NegInfinity _ = NegInfinity"
| "num_sub (Num a) PosInfinity = NegInfinity"
| "num_sub (Num a) NegInfinity = PosInfinity"

fun num_neg :: "number \<Rightarrow> number" where
  "num_neg NaN = NaN"
| "num_neg (Num a) = Num (- a)"
| "num_neg PosInfinity = NegInfinity"
| "num_neg NegInfinity = PosInfinity"

text \<open>The order of the numbers that are not \<^verbatim>\<open>NaN\<close>.\<close>

fun num_le :: "number \<Rightarrow> number \<Rightarrow> bool" where
  "num_le NaN _ = False"
| "num_le _ NaN = False"
| "num_le NegInfinity _ = True"
| "num_le _ PosInfinity = True"
| "num_le (Num a) (Num b) = (a \<le> b)"
| "num_le (Num a) NegInfinity = False"
| "num_le PosInfinity _ = False"

text \<open>
  What \<^verbatim>\<open>Array.prototype.sort\<close> makes of the value a comparator returns: its sign, with
  \<^verbatim>\<open>NaN\<close> read as zero.
\<close>

fun SortCompare :: "number \<Rightarrow> int" where
  "SortCompare NaN = 0"
| "SortCompare NegInfinity = - 1"
| "SortCompare PosInfinity = 1"
| "SortCompare (Num v) = v"

subsection \<open>\<^verbatim>\<open>Array.prototype.sort\<close>\<close>

text \<open>
  The host sorts stably. With a comparator whose answers agree with a total preorder the
  result is the one a stable insertion sort computes: each element goes before the first
  later element that it does not exceed.
\<close>

fun insert_by :: "('a \<Rightarrow> 'a \<Rightarrow> int) \<Rightarrow> 'a \<Rightarrow> 'a list \<Rightarrow> 'a list" where
  "insert_by cmp x [] = [x]"
| "insert_by cmp x (y # ys) = (if cmp x y \<le> 0 then x # y # ys else y # insert_by cmp x ys)"

fun array_sort :: "('a \<Rightarrow> 'a \<Rightarrow> int) \<Rightarrow> 'a list \<Rightarrow> 'a list" where
  "array_sort cmp [] = []"
| "array_sort cmp (x # xs) = insert_by cmp x (array_sort cmp xs)"

subsection \<open>String operations of the host\<close>

fun lastIndexOf_from :: "string \<Rightarrow> char \<Rightarrow> nat \<Rightarrow> int \<Rightarrow> int" where
  "lastIndexOf_from [] c i found = found"
| "lastIndexOf_from (x # xs) c i found =
     lastIndexOf_from xs c (Suc i) (if x = c then int i else found)"

definition lastIndexOf :: "string \<Rightarrow> char \<Rightarrow> int" where
  "lastIndexOf s c = lastIndexOf_from s c 0 (- 1)"

text \<open>
  \<^verbatim>\<open>substring(start, end)\<close> clamps both indices to the string and swaps them when they
  are out of order; \<^verbatim>\<open>substring(start)\<close> runs to the end of the string.
\<close>

definition substring :: "string \<Rightarrow> int \<Rightarrow> int \<Rightarrow> string" where
  "substring s start end =
     (let len = int (length s);
          a = max 0 (min start len);
          b = max 0 (min end len);
          lo = min a b;
          hi = max a b
      in take (nat (hi - lo)) (drop (nat lo) s))"

definition substring_from :: "string \<Rightarrow> int \<Rightarrow> string" where
  "substring_from s start = substring s start (int (length s))"

subsection \<open>The sort engine\<close>

definition tab_count_cmp :: "string \<Rightarrow> window \<Rightarrow> window \<Rightarrow> int" where
  "tab_count_cmp direction a b =
     (let countDiff = int (length (tabs a)) - int (length (tabs b))
      in if countDiff \<noteq> 0 then (if direction = ''asc'' then countDiff else - countDiff)
         else if focused a then - 1
         else if focused b then 1
         else 0)"

definition focused_cmp :: "string \<Rightarrow> window \<Rightarrow> window \<Rightarrow> int" where
  "focused_cmp direction a b =
     (let countDiff = int (length (tabs a)) - int (length (tabs b))
      in if direction = ''asc'' then
           (if focused a \<and> \<not> focused b then - 1
            else if \<not> focused a \<and> focused b then 1
            else countDiff)
         else
           (if focused a \<and> \<not> focused b then 1
            else if \<not> focused a \<and> focused b then - 1
            else countDiff))"

text \<open>\<^verbatim>\<open>(w.tabs[0]?.title || 'Untitled')\<close>: the empty title is falsy.\<close>

definition first_title :: "window \<Rightarrow> string" where
  "first_title w =
     (case tabs w of
        [] \<Rightarrow> ''Untitled''
      | t # _ \<Rightarrow> (if title t = [] then ''Untitled'' else title t))"

text \<open>
  Lower-casing is modelled on the letters A to Z; every other character is left as it is.
\<close>

definition lower_char :: "char \<Rightarrow> char" where
  "lower_char c =
     (let n = (of_char c :: nat) in if 65 \<le> n \<and> n \<le> 90 then char_of (n + 32) else c)"

definition toLowerCase :: "string \<Rightarrow> string" where
  "toLowerCase s = map lower_char s"

text \<open>
  The collation of \<^verbatim>\<open>localeCompare\<close> belongs to the host and its locale; it is a
  parameter \<open>lc\<close> of the sort engine.
\<close>

definition alphabetical_cmp ::
  "(string \<Rightarrow> string \<Rightarrow> int) \<Rightarrow> string \<Rightarrow> window \<Rightarrow> window \<Rightarrow> int" where
  "alphabetical_cmp lc direction a b =
     (let titleA = toLowerCase (first_title a);
          titleB = toLowerCase (first_title b);
          comparison = lc titleA titleB
      in if direction = ''asc'' then comparison else - comparison)"

text \<open>\<^verbatim>\<open>t.lastAccessed || 0\<close>: null and zero both give zero.\<close>

definition access_or_zero :: "tab \<Rightarrow> int" where
  "access_or_zero t = (case lastAccessed t of None \<Rightarrow> 0 | Some v \<Rightarrow> (if v = 0 then 0 else v))"

definition maxAccess :: "window \<Rightarrow> number" where
  "maxAccess w = Math_max (map (\<lambda>t. Num (access_or_zero t)) (tabs w))"

definition last_accessed_cmp :: "string \<Rightarrow> window \<Rightarrow> window \<Rightarrow> number" where
  "last_accessed_cmp direction a b =
     (let maxAccessA = maxAccess a;
          maxAccessB = maxAccess b;
          comparison = num_sub maxAccessB maxAccessA
      in if direction = ''asc'' then num_neg comparison else comparison)"

definition sortWindows ::
  "(string \<Rightarrow> string \<Rightarrow> int) \<Rightarrow> window list \<Rightarrow> string \<Rightarrow> window list" where
  "sortWindows lc windows sortBy =
     (let lastDashIndex = lastIndexOf sortBy CHR ''-'';
          sortType = substring sortBy 0 lastDashIndex;
          direction = substring_from sortBy (lastDashIndex + 1)
      in if sortType = ''tab-count'' then array_sort (tab_count_cmp direction) windows
         else if sortType = ''focused'' then array_sort (focused_cmp direction) windows
         else if sortType = ''alphabetical'' then
           array_sort (alphabetical_cmp lc direction) windows
         else if sortType = ''last-accessed'' then
           array_sort (\<lambda>a b. SortCompare (last_accessed_cmp direction a b)) windows
         else windows)"

text \<open>The type part of a preference, as the engine reads it.\<close>

definition sortType_of :: "string \<Rightarrow> string" where
  "sortType_of sortBy = substring sortBy 0 (lastIndexOf sortBy CHR ''-'')"

subsection \<open>The search filter of \<^verbatim>\<open>renderTabs\<close>\<close>

text \<open>\<^verbatim>\<open>s.includes(q)\<close>: \<open>q\<close> occurs in \<open>s\<close> as a contiguous run.\<close>

fun str_includes :: "string \<Rightarrow> string \<Rightarrow> bool" where
  "str_includes [] q = (q = [])"
| "str_includes (c # cs) q = (prefix q (c # cs) \<or> str_includes cs q)"

text \<open>The predicate of both filters; \<open>query\<close> is the lower-cased search text.\<close>

definition tab_matches :: "string \<Rightarrow> tab \<Rightarrow> bool" where
  "tab_matches query t =
     (if query = [] then True
      else str_includes (toLowerCase (title t)) query \<or>
           str_includes (toLowerCase (url t)) query)"

definition filteredTabs :: "string \<Rightarrow> window \<Rightarrow> tab list" where
  "filteredTabs query w = filter (tab_matches query) (tabs w)"

text \<open>
  One group of the container: the window record it was built from, the tabs drawn in it
  and whether it carries the class \<^verbatim>\<open>collapsed\<close>.
\<close>

record window_group =
  group_window :: window
  group_tabs :: "tab list"
  group_collapsed :: bool

text \<open>
  The collapse-state map is an object indexed by window identity; a missing entry reads
  as \<^verbatim>\<open>undefined\<close>, which is falsy.
\<close>

type_synonym collapse_map = "int \<rightharpoonup> bool"

definition isCollapsed :: "collapse_map \<Rightarrow> int \<Rightarrow> bool" where
  "isCollapsed collapsedWindows wid = (collapsedWindows wid = Some True)"

text \<open>
  The \<^verbatim>\<open>forEach\<close> over the sorted windows, with the running total and the groups appended
  to the container so far.
\<close>

fun render_loop ::
  "collapse_map \<Rightarrow> string \<Rightarrow> window list \<Rightarrow> nat \<times> window_group list \<Rightarrow> nat \<times> window_group list"
  where
  "render_loop cw query [] acc = acc"
| "render_loop cw query (w # ws) (totalTabs, container) =
     (let ft = filteredTabs query w
      in if length ft = 0 then render_loop cw query ws (totalTabs, container)
         else render_loop cw query ws
                (totalTabs + length ft,
                 container @ [\<lparr>group_window = w, group_tabs = ft,
                               group_collapsed = isCollapsed cw (windowId w)\<rparr>]))"

record filter_result =
  filteredWindows :: "window_group list"
  totalTabs :: nat
  windowCount :: nat

definition search_filter :: "collapse_map \<Rightarrow> window list \<Rightarrow> string \<Rightarrow> filter_result" where
  "search_filter cw sortedWindows searchQuery =
     (let query = toLowerCase searchQuery;
          (total, container) = render_loop cw query sortedWindows (0, [])
      in \<lparr>filteredWindows = container,
          totalTabs = total,
          windowCount =
            length (filter (\<lambda>w. length (filter (tab_matches query) (tabs w)) > 0) sortedWindows)\<rparr>)"

text \<open>
  What \<^verbatim>\<open>renderTabs\<close> leaves on the page: the container, and the two counters when
  it writes them (it returns before them when there is no window at all).
\<close>

datatype container_view = No_tabs_found | No_tabs_match | Window_groups "window_group list"

record page =
  tabs_container :: container_view
  window_count_shown :: "nat option"
  tab_count_shown :: "nat option"

definition renderTabs ::
  "(string \<Rightarrow> string \<Rightarrow> int) \<Rightarrow> string \<Rightarrow> collapse_map \<Rightarrow> window list \<Rightarrow> string \<Rightarrow> page" where
  "renderTabs lc currentSortPreference cw windows searchQuery =
     (if length windows = 0 then
        \<lparr>tabs_container = No_tabs_found, window_count_shown = None, tab_count_shown = None\<rparr>
      else
        let sortedWindows = sortWindows lc windows currentSortPreference;
            r = search_filter cw sortedWindows searchQuery
        in \<lparr>tabs_container =
              (if totalTabs r = 0 then No_tabs_match else Window_groups (filteredWindows r)),
            window_count_shown = Some (windowCount r),
            tab_count_shown = Some (totalTabs r)\<rparr>)"

text \<open>A query made of white space only, and the number of tabs of a list of windows.\<close>

definition is_whitespace :: "char \<Rightarrow> bool" where
  "is_whitespace c = (c \<in> set [CHR '' '', CHR 0x09, CHR 0x0A, CHR 0x0B, CHR 0x0C, CHR 0x0D])"

definition count_tabs :: "window list \<Rightarrow> nat" where
  "count_tabs ws = sum_list (map (\<lambda>w. length (tabs w)) ws)"

subsection \<open>The collapse-state store\<close>

text \<open>
  The preference store holds the collapse-state map under one key; the slot is empty
  until the first write. A write can fail, and then the store keeps what it had.
\<close>

record storage =
  stored_collapsedWindows :: "collapse_map option"
  stored_sortPreference :: "string option"

datatype write_outcome = Written | Write_failed

definition loadCollapsedState :: "storage \<Rightarrow> collapse_map" where
  "loadCollapsedState st =
     (case stored_collapsedWindows st of None \<Rightarrow> Map.empty | Some m \<Rightarrow> m)"

definition saveCollapsedState :: "write_outcome \<Rightarrow> collapse_map \<Rightarrow> storage \<Rightarrow> storage" where
  "saveCollapsedState outcome collapsedWindows st =
     (case outcome of
        Written \<Rightarrow> st\<lparr>stored_collapsedWindows := Some collapsedWindows\<rparr>
      | Write_failed \<Rightarrow> st)"

text \<open>
  \<^verbatim>\<open>toggleWindowCollapse\<close> flips the entry in memory, starts the write and sets the class
  of the group from the new entry; the result is the new map, the store and the class.
\<close>

definition toggleWindowCollapse ::
  "write_outcome \<Rightarrow> int \<Rightarrow> collapse_map \<times> storage \<Rightarrow> (collapse_map \<times> storage) \<times> bool" where
  "toggleWindowCollapse outcome wid s =
     (let collapsedWindows = (fst s)(wid \<mapsto> \<not> isCollapsed (fst s) wid);
          st = saveCollapsedState outcome collapsedWindows (snd s)
      in ((collapsedWindows, st), isCollapsed collapsedWindows wid))"

subsection \<open>The access-time tracker\<close>

text \<open>\<^verbatim>\<open>tabAccessTimes\<close> is a \<^verbatim>\<open>Map\<close> from tab identity to the time of the last activation.\<close>

type_synonym access_times = "int \<rightharpoonup> int"

definition recordAccess :: "access_times \<Rightarrow> int \<Rightarrow> int \<Rightarrow> access_times" where
  "recordAccess tabAccessTimes tabId timestamp = tabAccessTimes(tabId \<mapsto> timestamp)"

definition get_access :: "access_times \<Rightarrow> int \<Rightarrow> int option" where
  "get_access tabAccessTimes tabId = tabAccessTimes tabId"

datatype js_error = Js_error string

text \<open>
  \<^verbatim>\<open>switchToTab\<close> focuses the window, activates the tab and then records the access; a
  failure of either command is caught and leaves the tracker as it was.
\<close>

definition switchToTab ::
  "js_error + unit \<Rightarrow> js_error + unit \<Rightarrow> int \<Rightarrow> int \<Rightarrow> access_times \<Rightarrow> access_times" where
  "switchToTab focus_result activate_result tabId now tabAccessTimes =
     (case focus_result of
        Inl e \<Rightarrow> tabAccessTimes
      | Inr _ \<Rightarrow>
          (case activate_result of
             Inl e \<Rightarrow> tabAccessTimes
           | Inr _ \<Rightarrow> recordAccess tabAccessTimes tabId now))"

subsection \<open>The snapshot aggregator\<close>

text \<open>What the browser reports: windows with their tabs, and the tab groups.\<close>

record chrome_tab =
  c_id :: int
  c_title :: "string option"
  c_url :: "string option"
  c_favIconUrl :: "string option"
  c_active :: bool
  c_pinned :: bool
  c_groupId :: int

record chrome_group =
  g_id :: int
  g_title :: "string option"
  g_color :: string

record chrome_window =
  w_id :: int
  w_focused :: bool
  w_tabs :: "chrome_tab list"

definition DEFAULT_FAVICON :: string where
  \<open>DEFAULT_FAVICON = ''data:image/svg+xml,<svg xmlns="http://www.w3.org/2000/svg" width="16" height="16"><rect width="16" height="16" fill="%23ddd"/></svg>''\<close>

text \<open>The identity the browser gives to a tab that is in no group.\<close>

definition TAB_GROUP_ID_NONE :: int where
  "TAB_GROUP_ID_NONE = - 1"

text \<open>
  \<open>hostname\<close> stands for the URL parser of the host: the host name of an address, or
  \<open>None\<close> where \<^verbatim>\<open>new URL\<close> throws.
\<close>

definition getFaviconUrl :: "(string \<Rightarrow> string option) \<Rightarrow> chrome_tab \<Rightarrow> string" where
  "getFaviconUrl hostname t =
     (let fallback =
            (case c_url t of
               None \<Rightarrow> DEFAULT_FAVICON
             | Some u \<Rightarrow>
                 (case hostname u of
                    None \<Rightarrow> DEFAULT_FAVICON
                  | Some h \<Rightarrow> ''https://www.google.com/s2/favicons?domain='' @ h @ ''&sz=16''))
      in case c_favIconUrl t of
           None \<Rightarrow> fallback
         | Some f \<Rightarrow> (if f \<noteq> [] \<and> prefix ''http'' f then f else fallback))"

definition groupMap_of :: "chrome_group list \<Rightarrow> (int \<rightharpoonup> chrome_group)" where
  "groupMap_of tabGroups = foldl (\<lambda>m g. m(g_id g \<mapsto> g)) Map.empty tabGroups"

definition or_default :: "string option \<Rightarrow> string \<Rightarrow> string" where
  "or_default v d = (case v of None \<Rightarrow> d | Some s \<Rightarrow> (if s = [] then d else s))"

definition make_tab ::
  "(string \<Rightarrow> string option) \<Rightarrow> access_times \<Rightarrow> int \<Rightarrow> (int \<rightharpoonup> chrome_group) \<Rightarrow> int \<Rightarrow>
   chrome_tab \<Rightarrow> tab" where
  "make_tab hostname tabAccessTimes now groupMap wid t =
     (let grp = (if c_groupId t \<noteq> TAB_GROUP_ID_NONE then groupMap (c_groupId t) else None);
          fresh = (if c_active t then Some now else None)
      in \<lparr>tab_id = c_id t,
          title = or_default (c_title t) ''Untitled'',
          url = or_default (c_url t) [],
          favIconUrl = getFaviconUrl hostname t,
          active = c_active t,
          pinned = c_pinned t,
          groupId = c_groupId t,
          group =
            (case grp of
               None \<Rightarrow> None
             | Some g \<Rightarrow>
                 Some \<lparr>group_title = or_default (g_title g) ''Unnamed Group'',
                       color = g_color g\<rparr>),
          lastAccessed =
            (case get_access tabAccessTimes (c_id t) of
               None \<Rightarrow> fresh
             | Some v \<Rightarrow> (if v \<noteq> 0 then Some v else fresh)),
          tab_windowId = wid\<rparr>)"

text \<open>
  The body of the \<^verbatim>\<open>try\<close> block: the two queries of the provider either return or
  raise, and an error of the first one ends the block before the second.
\<close>

definition getAllTabs_try ::
  "(string \<Rightarrow> string option) \<Rightarrow> access_times \<Rightarrow> int \<Rightarrow>
   js_error + chrome_window list \<Rightarrow> js_error + chrome_group list \<Rightarrow> js_error + window list" where
  "getAllTabs_try hostname tabAccessTimes now getAll query =
     (case getAll of
        Inl e \<Rightarrow> Inl e
      | Inr windows \<Rightarrow>
          (case query of
             Inl e \<Rightarrow> Inl e
           | Inr tabGroups \<Rightarrow>
               Inr (map (\<lambda>w. \<lparr>windowId = w_id w,
                               focused = w_focused w,
                               tabs = map (make_tab hostname tabAccessTimes now
                                             (groupMap_of tabGroups) (w_id w)) (w_tabs w)\<rparr>)
                      windows)))"

text \<open>
  \<^verbatim>\<open>getAllTabs\<close> with its \<^verbatim>\<open>catch\<close>: \<open>Inl\<close> would be an error that leaves the function.
\<close>

definition getAllTabs ::
  "(string \<Rightarrow> string option) \<Rightarrow> access_times \<Rightarrow> int \<Rightarrow>
   js_error + chrome_window list \<Rightarrow> js_error + chrome_group list \<Rightarrow> js_error + window list" where
  "getAllTabs hostname tabAccessTimes now getAll query =
     (case getAllTabs_try hostname tabAccessTimes now getAll query of
        Inl e \<Rightarrow> Inr []
      | Inr ws \<Rightarrow> Inr ws)"

subsection \<open>The live update scheduler\<close>

text \<open>
  Timers of the host: a pending timer has a handle, the time at which it is due and its
  callback. Both callbacks of the popup call \<^verbatim>\<open>renderTabs\<close>, one with the text of the
  search box at the time it runs, the other with the text the event carried.
\<close>

datatype callback = Render_input_value | Render_detail string

record scheduler =
  timers :: "(nat \<times> int \<times> callback) list"
  next_handle :: nat
  debounceTimeout :: "nat option"
  searchInput_value :: string
  tabAccessTimes :: access_times
  renders :: "(int \<times> string) list"

definition clearTimeout :: "nat option \<Rightarrow> scheduler \<Rightarrow> scheduler" where
  "clearTimeout h s =
     (case h of
        None \<Rightarrow> s
      | Some i \<Rightarrow> s\<lparr>timers := filter (\<lambda>(j, d, cb). j \<noteq> i) (timers s)\<rparr>)"

definition setTimeout :: "callback \<Rightarrow> int \<Rightarrow> int \<Rightarrow> scheduler \<Rightarrow> nat \<times> scheduler" where
  "setTimeout cb delay now s =
     (next_handle s,
      s\<lparr>timers := timers s @ [(next_handle s, now + delay, cb)],
        next_handle := Suc (next_handle s)\<rparr>)"

definition debouncedRender :: "int \<Rightarrow> scheduler \<Rightarrow> scheduler" where
  "debouncedRender now s =
     (let s1 = clearTimeout (debounceTimeout s) s;
          (h, s2) = setTimeout Render_input_value 300 now s1
      in s2\<lparr>debounceTimeout := Some h\<rparr>)"

definition tabsearch_listener :: "string \<Rightarrow> int \<Rightarrow> scheduler \<Rightarrow> scheduler" where
  "tabsearch_listener detail now s =
     (let s1 = clearTimeout (debounceTimeout s) s;
          (h, s2) = setTimeout (Render_detail detail) 300 now s1
      in s2\<lparr>debounceTimeout := Some h\<rparr>)"

definition onActivatedListener :: "int \<Rightarrow> int \<Rightarrow> scheduler \<Rightarrow> scheduler" where
  "onActivatedListener tabId now s =
     debouncedRender now (s\<lparr>tabAccessTimes := recordAccess (tabAccessTimes s) tabId now\<rparr>)"

datatype event = Tab_updated | Tab_created | Tab_removed | Tab_activated int | Search_input string

fun handle_event :: "int \<Rightarrow> event \<Rightarrow> scheduler \<Rightarrow> scheduler" where
  "handle_event now Tab_updated s = debouncedRender now s"
| "handle_event now Tab_created s = debouncedRender now s"
| "handle_event now Tab_removed s = debouncedRender now s"
| "handle_event now (Tab_activated tabId) s = onActivatedListener tabId now s"
| "handle_event now (Search_input v) s = tabsearch_listener v now (s\<lparr>searchInput_value := v\<rparr>)"

text \<open>
  Time passing up to \<open>t\<close>: every timer due by then runs, in the order of arming, and each
  run is logged with its time and the query it renders.
\<close>

definition query_of :: "scheduler \<Rightarrow> callback \<Rightarrow> string" where
  "query_of s cb = (case cb of Render_input_value \<Rightarrow> searchInput_value s | Render_detail d \<Rightarrow> d)"

definition fire_due :: "int \<Rightarrow> scheduler \<Rightarrow> scheduler" where
  "fire_due t s =
     s\<lparr>timers := filter (\<lambda>(j, d, cb). \<not> d \<le> t) (timers s),
       renders := renders s @
                  map (\<lambda>(j, d, cb). (d, query_of s cb)) (filter (\<lambda>(j, d, cb). d \<le> t) (timers s))\<rparr>"

fun run :: "scheduler \<Rightarrow> (int \<times> event) list \<Rightarrow> scheduler" where
  "run s [] = s"
| "run s ((t, e) # es) = run (handle_event t e (fire_due t s)) es"

definition run_until :: "int \<Rightarrow> scheduler \<Rightarrow> (int \<times> event) list \<Rightarrow> scheduler" where
  "run_until horizon s es = fire_due horizon (run s es)"

definition popup_init :: scheduler where
  "popup_init =
     \<lparr>timers = [], next_handle = 0, debounceTimeout = None, searchInput_value = [],
      tabAccessTimes = Map.empty, renders = []\<rparr>"

text \<open>Each event follows the one before it by less than the quiet period.\<close>

fun quiet_gaps :: "(int \<times> event) list \<Rightarrow> bool" where
  "quiet_gaps [] = True"
| "quiet_gaps [x] = True"
| "quiet_gaps (x # y # es) = (fst x \<le> fst y \<and> fst y < fst x + 300 \<and> quiet_gaps (y # es))"

subsection \<open>Orders and predicates the properties are stated with\<close>

text \<open>
  Ascending and descending tab count, and among windows of equal count no unfocused
  window before a focused one.
\<close>

definition count_then_focus_asc :: "window \<Rightarrow> window \<Rightarrow> bool" where
  "count_then_focus_asc a b =
     (length (tabs a) < length (tabs b) \<or>
      (length (tabs a) = length (tabs b) \<and> (focused b \<longrightarrow> focused a)))"

definition count_then_focus_desc :: "window \<Rightarrow> window \<Rightarrow> bool" where
  "count_then_focus_desc a b =
     (length (tabs a) > length (tabs b) \<or>
      (length (tabs a) = length (tabs b) \<and> (focused b \<longrightarrow> focused a)))"

definition most_recent_first :: "window \<Rightarrow> window \<Rightarrow> bool" where
  "most_recent_first a b = num_le (maxAccess b) (maxAccess a)"

definition least_recent_first :: "window \<Rightarrow> window \<Rightarrow> bool" where
  "least_recent_first a b = num_le (maxAccess a) (maxAccess b)"

text \<open>A window with at least one matching tab, and the group drawn for it.\<close>

definition has_match :: "string \<Rightarrow> window \<Rightarrow> bool" where
  "has_match query w = (filteredTabs query w \<noteq> [])"

definition make_group :: "collapse_map \<Rightarrow> string \<Rightarrow> window \<Rightarrow> window_group" where
  "make_group cw query w =
     \<lparr>group_window = w, group_tabs = filteredTabs query w,
      group_collapsed = isCollapsed cw (windowId w)\<rparr>"

text \<open>
  At most one timer is pending, and it is the one \<^verbatim>\<open>debounceTimeout\<close> names; after an
  event at time \<open>t\<close> exactly one is pending, due at \<open>t + 300\<close>.
\<close>

definition one_pending :: "scheduler \<Rightarrow> bool" where
  "one_pending s =
     (timers s = [] \<or> (\<exists>h d cb. timers s = [(h, d, cb)] \<and> debounceTimeout s = Some h))"

definition armed_at :: "int \<Rightarrow> scheduler \<Rightarrow> bool" where
  "armed_at t s = (\<exists>h cb. timers s = [(h, t + 300, cb)] \<and> debounceTimeout s = Some h)"

text \<open>A run of collapse toggles, each with the outcome of its write.\<close>

fun toggle_all ::
  "(write_outcome \<times> int) list \<Rightarrow> collapse_map \<times> storage \<Rightarrow> collapse_map \<times> storage" where
  "toggle_all [] s = s"
| "toggle_all ((outcome, wid) # ts) s = toggle_all ts (fst (toggleWindowCollapse outcome wid s))"

definition fresh_store :: storage where
  "fresh_store = \<lparr>stored_collapsedWindows = None, stored_sortPreference = None\<rparr>"

subsection \<open>Concrete data\<close>

text \<open>A collation by character code, used where a concrete one is needed.\<close>

fun code_unit_compare :: "string \<Rightarrow> string \<Rightarrow> int" where
  "code_unit_compare [] [] = 0"
| "code_unit_compare [] (b # bs) = - 1"
| "code_unit_compare (a # as) [] = 1"
| "code_unit_compare (a # as) (b # bs) =
     (if (of_char a :: nat) < of_char b then - 1
      else if (of_char b :: nat) < of_char a then 1
      else code_unit_compare as bs)"

definition tab_git :: tab where
  "tab_git =
     \<lparr>tab_id = 11, title = ''GitHub'', url = ''https://github.com/'', favIconUrl = [],
      active = True, pinned = False, groupId = - 1, group = None, lastAccessed = Some 500,
      tab_windowId = 2\<rparr>"

definition tab_docs :: tab where
  "tab_docs =
     \<lparr>tab_id = 12, title = ''docs'', url = ''https://example.org/'', favIconUrl = [],
      active = False, pinned = False, groupId = - 1, group = None, lastAccessed = None,
      tab_windowId = 1\<rparr>"

definition tab_mail :: tab where
  "tab_mail =
     \<lparr>tab_id = 13, title = ''Mail'', url = ''https://mail.example.org/'', favIconUrl = [],
      active = False, pinned = True, groupId = - 1, group = None, lastAccessed = Some 90,
      tab_windowId = 1\<rparr>"

definition win_a :: window where
  "win_a = \<lparr>windowId = 1, focused = False, tabs = [tab_docs, tab_mail, tab_docs]\<rparr>"

definition win_b :: window where
  "win_b = \<lparr>windowId = 2, focused = False, tabs = [tab_git]\<rparr>"

definition win_c :: window where
  "win_c = \<lparr>windowId = 3, focused = False, tabs = [tab_docs, tab_docs]\<rparr>"

definition win_d :: window where
  "win_d = \<lparr>windowId = 4, focused = True, tabs = [tab_mail, tab_git]\<rparr>"

definition burst :: "(int \<times> event) list" where
  "burst = [(0, Tab_created), (100, Search_input ''git''), (350, Tab_activated 11)]"

text \<open>A store left by an earlier session in which window 3 was collapsed.\<close>

definition collapsed_3_store :: storage where
  "collapsed_3_store =
     \<lparr>stored_collapsedWindows = Some [3 \<mapsto> True], stored_sortPreference = None\<rparr>"

section \<open>Properties\<close>

subsection \<open>Sorting with a comparator\<close>

lemma mset_insert_by: "mset (insert_by cmp x ys) = add_mset x (mset ys)"
  by (induction ys) auto

lemma mset_array_sort: "mset (array_sort cmp xs) = mset xs"
  by (induction xs) (auto simp: mset_insert_by)

lemma set_insert_by: "set (insert_by cmp x ys) = insert x (set ys)"
  by (induction ys) auto

text \<open>
  If the comparator answers according to a transitive relation \<open>P\<close> that relates any two
  elements one way or the other, the result is ordered by \<open>P\<close>.
\<close>

lemma sorted_wrt_insert_by:
  assumes le: "\<And>a b. cmp a b \<le> 0 \<Longrightarrow> P a b"
    and gt: "\<And>a b. \<not> cmp a b \<le> 0 \<Longrightarrow> P b a"
    and tr: "\<And>a b c. P a b \<Longrightarrow> P b c \<Longrightarrow> P a c"
    and srt: "sorted_wrt P ys"
  shows "sorted_wrt P (insert_by cmp x ys)"
  using srt
proof (induction ys)
  case Nil
  then show ?case by simp
next
  case (Cons y ys)
  show ?case
  proof (cases "cmp x y \<le> 0")
    case True
    then have xy: "P x y" by (rule le)
    have "\<forall>z\<in>set ys. P x z" using Cons.prems xy tr by auto
    with xy Cons.prems True show ?thesis by simp
  next
    case False
    then have yx: "P y x" by (rule gt)
    from Cons have "sorted_wrt P (insert_by cmp x ys)" by simp
    with yx Cons.prems False show ?thesis by (simp add: set_insert_by)
  qed
qed

text \<open>
  Where the comparator compares a key, the result is the stable sort by that key of the
  library.
\<close>

lemma insert_by_insort_key:
  assumes "\<And>a b. (cmp a b \<le> 0) = (k a \<le> k b)"
  shows "insert_by cmp x ys = insort_key k x ys"
  by (induction ys) (simp_all add: assms)

lemma array_sort_sort_key:
  assumes "\<And>a b. (cmp a b \<le> 0) = (k a \<le> k b)"
  shows "array_sort cmp xs = sort_key k xs"
  by (induction xs) (simp_all add: insert_by_insort_key [of cmp k, OF assms])

lemma sorted_wrt_array_sort:
  assumes le: "\<And>a b. cmp a b \<le> 0 \<Longrightarrow> P a b"
    and gt: "\<And>a b. \<not> cmp a b \<le> 0 \<Longrightarrow> P b a"
    and tr: "\<And>a b c. P a b \<Longrightarrow> P b c \<Longrightarrow> P a c"
  shows "sorted_wrt P (array_sort cmp xs)"
proof (induction xs)
  case Nil
  show ?case by simp
next
  case (Cons x xs)
  then show ?case using sorted_wrt_insert_by [of cmp P, OF le gt tr] by simp
qed

subsection \<open>Reading the preference string\<close>

lemma lastIndexOf_from_none:
  "c \<notin> set s \<Longrightarrow> lastIndexOf_from s c i found = found"
  by (induction s arbitrary: i found) auto

lemma lastIndexOf_from_append:
  "lastIndexOf_from (s @ r) c i found =
   lastIndexOf_from r c (i + length s) (lastIndexOf_from s c i found)"
  by (induction s arbitrary: i found) auto

lemma lastIndexOf_split:
  "c \<notin> set d \<Longrightarrow> lastIndexOf (ty @ c # d) c = int (length ty)"
  by (simp add: lastIndexOf_def lastIndexOf_from_append lastIndexOf_from_none)

lemma substring_prefix: "substring (ty @ r) 0 (int (length ty)) = ty"
  by (simp add: substring_def Let_def)

lemma substring_from_suffix: "substring_from (ty @ c # d) (int (length ty) + 1) = d"
  by (simp add: substring_from_def substring_def Let_def nat_add_distrib)

lemma sortWindows_split:
  assumes "CHR ''-'' \<notin> set d"
  shows "sortWindows lc ws (ty @ CHR ''-'' # d) =
     (if ty = ''tab-count'' then array_sort (tab_count_cmp d) ws
      else if ty = ''focused'' then array_sort (focused_cmp d) ws
      else if ty = ''alphabetical'' then array_sort (alphabetical_cmp lc d) ws
      else if ty = ''last-accessed'' then
        array_sort (\<lambda>a b. SortCompare (last_accessed_cmp d a b)) ws
      else ws)"
  unfolding sortWindows_def Let_def lastIndexOf_split [OF assms] substring_prefix
    substring_from_suffix
  by (rule refl)

lemma sortWindows_tab_count:
  "CHR ''-'' \<notin> set d \<Longrightarrow>
   sortWindows lc ws (''tab-count'' @ CHR ''-'' # d) = array_sort (tab_count_cmp d) ws"
  using sortWindows_split [where ty = "''tab-count''" and d = d and lc = lc and ws = ws] by simp

lemma sortWindows_last_accessed:
  "CHR ''-'' \<notin> set d \<Longrightarrow>
   sortWindows lc ws (''last-accessed'' @ CHR ''-'' # d) =
     array_sort (\<lambda>a b. SortCompare (last_accessed_cmp d a b)) ws"
  using sortWindows_split [where ty = "''last-accessed''" and d = d and lc = lc and ws = ws]
  by simp

lemma mset_sortWindows: "mset (sortWindows lc ws sortBy) = mset ws"
  by (simp add: sortWindows_def Let_def mset_array_sort)

lemma cmp_not_asc:
  assumes "d \<noteq> ''asc''"
  shows "tab_count_cmp d = tab_count_cmp ''desc''"
    and "alphabetical_cmp lc d = alphabetical_cmp lc ''desc''"
    and "last_accessed_cmp d = last_accessed_cmp ''desc''"
    and "focused_cmp d = focused_cmp ''desc''"
  using assms
  by (auto simp: fun_eq_iff tab_count_cmp_def alphabetical_cmp_def last_accessed_cmp_def
        focused_cmp_def Let_def)

subsection \<open>The comparators\<close>

lemma tab_count_asc_le: "(tab_count_cmp ''asc'' a b \<le> 0) = count_then_focus_asc a b"
  by (simp add: tab_count_cmp_def count_then_focus_asc_def Let_def) arith

lemma tab_count_desc_le: "(tab_count_cmp ''desc'' a b \<le> 0) = count_then_focus_desc a b"
  by (simp add: tab_count_cmp_def count_then_focus_desc_def Let_def) arith

lemma tab_count_asc_sorted:
  "sorted_wrt count_then_focus_asc (array_sort (tab_count_cmp ''asc'') ws)"
proof (rule sorted_wrt_array_sort)
  fix a b
  show "tab_count_cmp ''asc'' a b \<le> 0 \<Longrightarrow> count_then_focus_asc a b"
    by (simp add: tab_count_asc_le)
  show "\<not> tab_count_cmp ''asc'' a b \<le> 0 \<Longrightarrow> count_then_focus_asc b a"
    unfolding tab_count_asc_le count_then_focus_asc_def by arith
next
  fix a b c
  show "count_then_focus_asc a b \<Longrightarrow> count_then_focus_asc b c \<Longrightarrow> count_then_focus_asc a c"
    unfolding count_then_focus_asc_def by arith
qed

lemma tab_count_desc_sorted:
  "sorted_wrt count_then_focus_desc (array_sort (tab_count_cmp ''desc'') ws)"
proof (rule sorted_wrt_array_sort)
  fix a b
  show "tab_count_cmp ''desc'' a b \<le> 0 \<Longrightarrow> count_then_focus_desc a b"
    by (simp add: tab_count_desc_le)
  show "\<not> tab_count_cmp ''desc'' a b \<le> 0 \<Longrightarrow> count_then_focus_desc b a"
    unfolding tab_count_desc_le count_then_focus_desc_def by arith
next
  fix a b c
  show "count_then_focus_desc a b \<Longrightarrow> count_then_focus_desc b c \<Longrightarrow> count_then_focus_desc a c"
    unfolding count_then_focus_desc_def by arith
qed

lemma foldl_num_max_Num:
  "foldl num_max (Num a) (map Num xs) = Num (fold max xs a)"
  by (induction xs arbitrary: a) (simp_all add: max.commute)

lemma Math_max_Num:
  "Math_max (map Num xs) = (if xs = [] then NegInfinity else Num (Max (set xs)))"
proof (cases xs)
  case Nil
  then show ?thesis by (simp add: Math_max_def)
next
  case (Cons x xs')
  have "Math_max (map Num (x # xs')) = Num (fold max xs' x)"
    by (simp add: Math_max_def foldl_num_max_Num)
  also have "fold max xs' x = Max (set (x # xs'))"
    by (simp only: Max.set_eq_fold)
  finally show ?thesis using Cons by simp
qed

lemma maxAccess_eq:
  "maxAccess w =
     (if tabs w = [] then NegInfinity else Num (Max (access_or_zero ` set (tabs w))))"
  using Math_max_Num [of "map access_or_zero (tabs w)"]
  by (simp add: maxAccess_def comp_def)

lemma maxAccess_cases: "maxAccess w = NegInfinity \<or> (\<exists>v. maxAccess w = Num v)"
  by (simp add: maxAccess_eq)

lemma num_le_trans: "num_le a b \<Longrightarrow> num_le b c \<Longrightarrow> num_le a c"
  by (cases a; cases b; cases c) auto

lemma num_le_total:
  "\<not> num_le (maxAccess a) (maxAccess b) \<Longrightarrow> num_le (maxAccess b) (maxAccess a)"
  using maxAccess_cases [of a] maxAccess_cases [of b] by auto

lemma last_accessed_desc_le:
  "(SortCompare (last_accessed_cmp ''desc'' a b) \<le> 0) = num_le (maxAccess b) (maxAccess a)"
  using maxAccess_cases [of a] maxAccess_cases [of b]
  by (auto simp: last_accessed_cmp_def Let_def)

lemma last_accessed_asc_le:
  "(SortCompare (last_accessed_cmp ''asc'' a b) \<le> 0) = num_le (maxAccess a) (maxAccess b)"
  using maxAccess_cases [of a] maxAccess_cases [of b]
  by (auto simp: last_accessed_cmp_def Let_def)

lemma last_accessed_desc_sorted:
  "sorted_wrt most_recent_first
     (array_sort (\<lambda>a b. SortCompare (last_accessed_cmp ''desc'' a b)) ws)"
proof (rule sorted_wrt_array_sort)
  fix a b
  show "SortCompare (last_accessed_cmp ''desc'' a b) \<le> 0 \<Longrightarrow> most_recent_first a b"
    by (simp add: last_accessed_desc_le most_recent_first_def)
  show "\<not> SortCompare (last_accessed_cmp ''desc'' a b) \<le> 0 \<Longrightarrow> most_recent_first b a"
    by (simp add: last_accessed_desc_le most_recent_first_def num_le_total)
next
  fix a b c
  show "most_recent_first a b \<Longrightarrow> most_recent_first b c \<Longrightarrow> most_recent_first a c"
    unfolding most_recent_first_def by (rule num_le_trans)
qed

lemma last_accessed_asc_sorted:
  "sorted_wrt least_recent_first
     (array_sort (\<lambda>a b. SortCompare (last_accessed_cmp ''asc'' a b)) ws)"
proof (rule sorted_wrt_array_sort)
  fix a b
  show "SortCompare (last_accessed_cmp ''asc'' a b) \<le> 0 \<Longrightarrow> least_recent_first a b"
    by (simp add: last_accessed_asc_le least_recent_first_def)
  show "\<not> SortCompare (last_accessed_cmp ''asc'' a b) \<le> 0 \<Longrightarrow> least_recent_first b a"
    by (simp add: last_accessed_asc_le least_recent_first_def num_le_total)
next
  fix a b c
  show "least_recent_first a b \<Longrightarrow> least_recent_first b c \<Longrightarrow> least_recent_first a c"
    unfolding least_recent_first_def by (rule num_le_trans)
qed

subsection \<open>The search filter\<close>

lemma str_includes_sublist: "str_includes s q = sublist q s"
  by (induction s) (simp_all add: sublist_Cons_right)

lemma has_match_fun: "has_match q = (\<lambda>w. filter (tab_matches q) (tabs w) \<noteq> [])"
  by (simp add: fun_eq_iff has_match_def filteredTabs_def)

lemma has_match_empty_query: "has_match [] = (\<lambda>w. tabs w \<noteq> [])"
  by (simp add: has_match_fun tab_matches_def)

lemma make_group_empty_query:
  "make_group cw [] = (\<lambda>w. \<lparr>group_window = w, group_tabs = tabs w,
                                   group_collapsed = isCollapsed cw (windowId w)\<rparr>)"
  by (simp add: fun_eq_iff make_group_def filteredTabs_def tab_matches_def)

lemma render_loop_eq:
  "render_loop cw q ws (n, c) =
     (n + sum_list (map (\<lambda>w. length (filteredTabs q w)) ws),
      c @ map (make_group cw q) (filter (has_match q) ws))"
  by (induction ws arbitrary: n c) (simp_all add: Let_def make_group_def has_match_def)

lemma sum_filtered_has_match:
  "sum_list (map (\<lambda>w. length (filteredTabs q w)) (filter (has_match q) ws)) =
   sum_list (map (\<lambda>w. length (filteredTabs q w)) ws)"
  by (induction ws) (simp_all add: has_match_def)

lemma search_filter_eq:
  "search_filter cw ws sq =
     \<lparr>filteredWindows =
        map (make_group cw (toLowerCase sq)) (filter (has_match (toLowerCase sq)) ws),
      totalTabs = sum_list (map (\<lambda>w. length (filteredTabs (toLowerCase sq) w)) ws),
      windowCount = length (filter (has_match (toLowerCase sq)) ws)\<rparr>"
  by (simp add: search_filter_def Let_def render_loop_eq has_match_fun)

lemma filteredTabs_empty_query: "filteredTabs [] w = tabs w"
  by (simp add: filteredTabs_def tab_matches_def)

subsection \<open>The scheduler\<close>

lemma debouncedRender_armed:
  "one_pending s \<Longrightarrow>
   armed_at now (debouncedRender now s) \<and> renders (debouncedRender now s) = renders s"
  by (auto simp: one_pending_def armed_at_def debouncedRender_def clearTimeout_def setTimeout_def
        Let_def split: option.split)

lemma tabsearch_listener_armed:
  "one_pending s \<Longrightarrow>
   armed_at now (tabsearch_listener v now s) \<and> renders (tabsearch_listener v now s) = renders s"
  by (auto simp: one_pending_def armed_at_def tabsearch_listener_def clearTimeout_def
        setTimeout_def Let_def split: option.split)

lemma handle_event_armed:
  assumes "one_pending s"
  shows "armed_at now (handle_event now e s) \<and> renders (handle_event now e s) = renders s"
proof (cases e)
  case (Tab_activated tabId)
  have "one_pending (s\<lparr>tabAccessTimes := recordAccess (tabAccessTimes s) tabId now\<rparr>)"
    using assms by (simp add: one_pending_def)
  from debouncedRender_armed [OF this, of now] Tab_activated show ?thesis
    by (simp add: onActivatedListener_def)
next
  case (Search_input v)
  have "one_pending (s\<lparr>searchInput_value := v\<rparr>)"
    using assms by (simp add: one_pending_def)
  from tabsearch_listener_armed [OF this, of now v] Search_input show ?thesis by simp
qed (use assms debouncedRender_armed in simp_all)

lemma armed_one_pending: "armed_at t s \<Longrightarrow> one_pending s"
  by (auto simp: armed_at_def one_pending_def)

lemma fire_due_one_pending:
  assumes "one_pending s"
  shows "one_pending (fire_due t s)"
proof (cases "timers s = []")
  case True
  then show ?thesis by (simp add: one_pending_def fire_due_def)
next
  case False
  with assms obtain h d cb where "timers s = [(h, d, cb)]" "debounceTimeout s = Some h"
    by (auto simp: one_pending_def)
  then show ?thesis by (cases "d \<le> t") (simp_all add: one_pending_def fire_due_def)
qed

lemma fire_due_early:
  "armed_at t0 s \<Longrightarrow> t < t0 + 300 \<Longrightarrow> fire_due t s = s"
  by (auto simp: armed_at_def fire_due_def)

lemma fire_due_late:
  "armed_at t0 s \<Longrightarrow> t0 + 300 \<le> t \<Longrightarrow>
   map fst (renders (fire_due t s)) = map fst (renders s) @ [t0 + 300] \<and>
   timers (fire_due t s) = []"
  by (auto simp: armed_at_def fire_due_def)

lemma run_quiet:
  "armed_at (fst x) s \<Longrightarrow> quiet_gaps (x # es) \<Longrightarrow>
   armed_at (fst (last (x # es))) (run s es) \<and> renders (run s es) = renders s"
proof (induction es arbitrary: x s)
  case Nil
  then show ?case by simp
next
  case (Cons y es)
  obtain t e where y: "y = (t, e)" by (cases y)
  from Cons.prems y have gap: "t < fst x + 300" and rest: "quiet_gaps (y # es)" by simp_all
  have idle: "fire_due t s = s" using Cons.prems(1) gap by (rule fire_due_early)
  have pend: "one_pending s" using Cons.prems(1) by (rule armed_one_pending)
  from handle_event_armed [OF pend, of t e]
  have arm: "armed_at (fst y) (handle_event t e s)"
    and log: "renders (handle_event t e s) = renders s"
    by (simp_all add: y)
  from Cons.IH [OF arm rest] log idle show ?case by (simp add: y)
qed

lemma run_quiet_init:
  assumes "es \<noteq> []" and "quiet_gaps es"
  shows "armed_at (fst (last es)) (run popup_init es) \<and> renders (run popup_init es) = []"
proof -
  from assms(1) obtain t e es' where es: "es = (t, e) # es'" by (cases es) auto
  have p0: "one_pending popup_init" by (simp add: one_pending_def popup_init_def)
  have f0: "fire_due t popup_init = popup_init" by (simp add: fire_due_def popup_init_def)
  from handle_event_armed [OF p0, of t e]
  have arm: "armed_at (fst (t, e)) (handle_event t e popup_init)"
    and log: "renders (handle_event t e popup_init) = []"
    by (simp_all add: popup_init_def)
  from run_quiet [OF arm] assms(2) es log f0 show ?thesis by simp
qed

lemma run_one_pending: "one_pending s \<Longrightarrow> one_pending (run s es)"
proof (induction es arbitrary: s)
  case Nil
  then show ?case by simp
next
  case (Cons x es)
  obtain t e where x: "x = (t, e)" by (cases x)
  have "one_pending (fire_due t s)" using Cons.prems by (rule fire_due_one_pending)
  from handle_event_armed [OF this, where now = t and e = e]
  have "one_pending (handle_event t e (fire_due t s))"
    by (blast intro: armed_one_pending)
  from Cons.IH [OF this] x show ?case by simp
qed

subsection \<open>The collapse-state store\<close>

lemma toggle_other:
  "wid \<noteq> W \<Longrightarrow>
   fst (fst (toggleWindowCollapse outcome wid (cw, st))) W = cw W \<and>
   loadCollapsedState (snd (fst (toggleWindowCollapse outcome wid (cw, st)))) W =
     (case outcome of Written \<Rightarrow> cw W | Write_failed \<Rightarrow> loadCollapsedState st W)"
  by (cases outcome)
     (simp_all add: toggleWindowCollapse_def saveCollapsedState_def loadCollapsedState_def Let_def)

lemma toggle_all_untouched:
  "W \<notin> snd ` set ts \<Longrightarrow> fst s W = None \<Longrightarrow> loadCollapsedState (snd s) W = None \<Longrightarrow>
   fst (toggle_all ts s) W = None \<and> loadCollapsedState (snd (toggle_all ts s)) W = None"
proof (induction ts arbitrary: s)
  case Nil
  then show ?case by simp
next
  case (Cons x ts)
  obtain outcome wid where x: "x = (outcome, wid)" by (cases x)
  obtain cw st where s: "s = (cw, st)" by (cases s)
  from Cons.prems x have ne: "wid \<noteq> W" and rest: "W \<notin> snd ` set ts" by auto
  let ?s' = "fst (toggleWindowCollapse outcome wid (cw, st))"
  from toggle_other [OF ne, of outcome cw st] Cons.prems(2,3) s
  have "fst ?s' W = None" and "loadCollapsedState (snd ?s') W = None"
    by (simp_all split: write_outcome.splits)
  from Cons.IH [OF rest this] x s show ?case by simp
qed

section \<open>The claims\<close>

text \<open>
  C1. The claim: for every list of windows and every search query made of whitespace only,
  and for the empty query, the filter matches every tab. The filter tests the query for
  emptiness only, so a query of one space is searched for like any other text: a window
  whose only tab is titled \<open>GitHub\<close>, at \<^verbatim>\<open>https://github.com/\<close>, has no match for it.
\<close>

theorem whitespace_query_not_match_all:
  "list_all is_whitespace '' '' \<and>
   count_tabs [\<lparr>windowId = 1, focused = True, tabs = [tab_git]\<rparr>] = 1 \<and>
   totalTabs (search_filter Map.empty [\<lparr>windowId = 1, focused = True, tabs = [tab_git]\<rparr>] '' '')
     = 0 \<and>
   filteredWindows (search_filter Map.empty [\<lparr>windowId = 1, focused = True, tabs = [tab_git]\<rparr>] '' '')
     = []"
  by code_simp

text \<open>
  C1, as amended. For the empty query every tab matches: the filtered structure holds
  every window that has at least one tab, with its full tab list and in the order of the
  input, and the total is the number of tabs of the input. Any other query, one of
  whitespace included, keeps the tabs whose lower-cased title or address contains the
  lower-cased query.
\<close>

theorem empty_query_matches_all:
  "filteredWindows (search_filter cw ws []) =
     map (\<lambda>w. \<lparr>group_window = w, group_tabs = tabs w,
                 group_collapsed = isCollapsed cw (windowId w)\<rparr>)
       (filter (\<lambda>w. tabs w \<noteq> []) ws) \<and>
   totalTabs (search_filter cw ws []) = count_tabs ws \<and>
   windowCount (search_filter cw ws []) = length (filter (\<lambda>w. tabs w \<noteq> []) ws) \<and>
   (sq \<noteq> [] \<longrightarrow>
      filteredTabs (toLowerCase sq) w =
        filter (\<lambda>t. sublist (toLowerCase sq) (toLowerCase (title t)) \<or>
                     sublist (toLowerCase sq) (toLowerCase (url t))) (tabs w))"
proof -
  have "sq \<noteq> [] \<Longrightarrow> toLowerCase sq \<noteq> []" by (simp add: toLowerCase_def)
  then have "sq \<noteq> [] \<Longrightarrow>
      filteredTabs (toLowerCase sq) w =
        filter (\<lambda>t. sublist (toLowerCase sq) (toLowerCase (title t)) \<or>
                     sublist (toLowerCase sq) (toLowerCase (url t))) (tabs w)"
    by (simp add: filteredTabs_def tab_matches_def str_includes_sublist cong: filter_cong)
  then show ?thesis
    by (simp add: search_filter_eq toLowerCase_def make_group_empty_query has_match_empty_query
          filteredTabs_empty_query count_tabs_def)
qed

theorem empty_query_matches_all_witness:
  "'' '' \<noteq> [] \<and>
   totalTabs (search_filter Map.empty [win_b, \<lparr>windowId = 9, focused = False, tabs = []\<rparr>] [])
     = count_tabs [win_b, \<lparr>windowId = 9, focused = False, tabs = []\<rparr>] \<and>
   count_tabs [win_b, \<lparr>windowId = 9, focused = False, tabs = []\<rparr>] = 1 \<and>
   filteredTabs (toLowerCase '' '') win_b =
     filter (\<lambda>t. sublist (toLowerCase '' '') (toLowerCase (title t)) \<or>
                  sublist (toLowerCase '' '') (toLowerCase (url t))) (tabs win_b) \<and>
   filteredTabs (toLowerCase '' '') win_b = []"
proof -
  have ev: "'' '' \<noteq> [] \<and>
      count_tabs [win_b, \<lparr>windowId = 9, focused = False, tabs = []\<rparr>] = 1 \<and>
      filteredTabs (toLowerCase '' '') win_b = []"
    by code_simp
  show ?thesis
    using ev empty_query_matches_all
          [where cw = Map.empty and ws = "[win_b, \<lparr>windowId = 9, focused = False, tabs = []\<rparr>]"
             and sq = "'' ''" and w = win_b]
    by blast
qed

text \<open>
  C2. Sorting with \<^verbatim>\<open>last-accessed-desc\<close> orders the windows by their key from largest to
  smallest, and with \<^verbatim>\<open>last-accessed-asc\<close> from smallest to largest; the result is a
  rearrangement of the input. The key of a window with tabs is the maximum over its tabs
  of the last-accessed time, taking 0 for a tab without one (a window without tabs has
  the key \<^verbatim>\<open>-Infinity\<close>, below every other).
\<close>

theorem last_accessed_order:
  "sorted_wrt most_recent_first (sortWindows lc ws ''last-accessed-desc'') \<and>
   sorted_wrt least_recent_first (sortWindows lc ws ''last-accessed-asc'') \<and>
   mset (sortWindows lc ws ''last-accessed-desc'') = mset ws \<and>
   mset (sortWindows lc ws ''last-accessed-asc'') = mset ws \<and>
   maxAccess w =
     (if tabs w = [] then NegInfinity else Num (Max (access_or_zero ` set (tabs w))))"
proof -
  have a: "sortWindows lc ws ''last-accessed-asc'' =
      array_sort (\<lambda>a b. SortCompare (last_accessed_cmp ''asc'' a b)) ws"
    using sortWindows_last_accessed [of "''asc''" lc ws] by simp
  have d: "sortWindows lc ws ''last-accessed-desc'' =
      array_sort (\<lambda>a b. SortCompare (last_accessed_cmp ''desc'' a b)) ws"
    using sortWindows_last_accessed [of "''desc''" lc ws] by simp
  show ?thesis
    unfolding a d
    using maxAccess_eq [of w]
    by (simp add: last_accessed_asc_sorted last_accessed_desc_sorted mset_array_sort)
qed

theorem last_accessed_order_example:
  "map windowId (sortWindows code_unit_compare [win_a, win_b, win_c, win_d] ''last-accessed-desc'')
     = [2, 4, 1, 3] \<and>
   map windowId (sortWindows code_unit_compare [win_a, win_b, win_c, win_d] ''last-accessed-asc'')
     = [3, 1, 2, 4] \<and>
   map maxAccess [win_a, win_b, win_c, win_d] = [Num 90, Num 500, Num 0, Num 500] \<and>
   sorted_wrt most_recent_first
     (sortWindows code_unit_compare [win_a, win_b, win_c, win_d] ''last-accessed-desc'') \<and>
   sorted_wrt least_recent_first
     (sortWindows code_unit_compare [win_a, win_b, win_c, win_d] ''last-accessed-asc'')"
proof -
  have ev: "map windowId
        (sortWindows code_unit_compare [win_a, win_b, win_c, win_d] ''last-accessed-desc'')
        = [2, 4, 1, 3] \<and>
      map windowId
        (sortWindows code_unit_compare [win_a, win_b, win_c, win_d] ''last-accessed-asc'')
        = [3, 1, 2, 4] \<and>
      map maxAccess [win_a, win_b, win_c, win_d] = [Num 90, Num 500, Num 0, Num 500]"
    by code_simp
  show ?thesis
    using ev last_accessed_order
          [where lc = code_unit_compare and ws = "[win_a, win_b, win_c, win_d]"]
    by blast
qed

text \<open>
  C3. The access-time tracker overwrites: after recording \<open>t1\<close> and then \<open>t2\<close> for the same
  tab, the lookup returns \<open>t2\<close>, whatever the order of the two times. This holds for the
  map operation and for both places that record an access, the activation listener and a
  successful switch.
\<close>

theorem access_time_last_write_wins:
  "get_access (recordAccess (recordAccess m tabId t1) tabId t2) tabId = Some t2 \<and>
   get_access (tabAccessTimes (onActivatedListener tabId t2 (onActivatedListener tabId t1 s)))
     tabId = Some t2 \<and>
   get_access
     (switchToTab (Inr ()) (Inr ()) tabId t2 (switchToTab (Inr ()) (Inr ()) tabId t1 m)) tabId
     = Some t2"
  by (simp add: get_access_def recordAccess_def onActivatedListener_def debouncedRender_def
        clearTimeout_def setTimeout_def switchToTab_def Let_def split: option.split)

theorem access_time_last_write_wins_example:
  "get_access (recordAccess (recordAccess Map.empty 11 500) 11 90) 11 = Some 90 \<and>
   get_access (tabAccessTimes (onActivatedListener 11 90 (onActivatedListener 11 500 popup_init)))
     11 = Some 90"
  using access_time_last_write_wins [where m = Map.empty and tabId = 11 and ?t1.0 = 500
          and ?t2.0 = 90 and s = popup_init]
  by simp

text \<open>
  C4. If either query of the provider raises, \<^verbatim>\<open>getAllTabs\<close> returns the empty list of
  windows, as it does for a browser without windows, and no error leaves it on any
  input; \<^verbatim>\<open>renderTabs\<close> then shows that no tabs were found.
\<close>

theorem getAllTabs_provider_failure:
  "getAllTabs hostname tat now (Inl e) query = Inr [] \<and>
   getAllTabs hostname tat now getAll (Inl e) = Inr [] \<and>
   getAllTabs hostname tat now (Inr []) (Inr tabGroups) = Inr [] \<and>
   getAllTabs hostname tat now getAll query \<noteq> Inl e' \<and>
   tabs_container (renderTabs lc pref cw [] sq) = No_tabs_found"
  by (simp add: getAllTabs_def getAllTabs_try_def renderTabs_def split: sum.split)

theorem getAllTabs_provider_failure_example:
  "getAllTabs (\<lambda>u. None) Map.empty 1000 (Inl (Js_error ''no windows'')) (Inr []) = Inr [] \<and>
   getAllTabs (\<lambda>u. None) Map.empty 1000 (Inr []) (Inr []) = Inr []"
  using getAllTabs_provider_failure [where hostname = "\<lambda>u. None" and tat = Map.empty
          and now = 1000 and e = "Js_error ''no windows''" and query = "Inr []"
          and tabGroups = "[]"]
  by simp

text \<open>
  C5. Sorting with \<^verbatim>\<open>tab-count-asc\<close> orders the windows by ascending tab count and with
  \<^verbatim>\<open>tab-count-desc\<close> by descending tab count; in both, of two windows with the same count
  an unfocused one never comes before a focused one. The result is a rearrangement of
  the input.
\<close>

theorem tab_count_order:
  "sorted_wrt count_then_focus_asc (sortWindows lc ws ''tab-count-asc'') \<and>
   sorted_wrt count_then_focus_desc (sortWindows lc ws ''tab-count-desc'') \<and>
   mset (sortWindows lc ws ''tab-count-asc'') = mset ws \<and>
   mset (sortWindows lc ws ''tab-count-desc'') = mset ws"
proof -
  have a: "sortWindows lc ws ''tab-count-asc'' = array_sort (tab_count_cmp ''asc'') ws"
    using sortWindows_tab_count [of "''asc''" lc ws] by simp
  have d: "sortWindows lc ws ''tab-count-desc'' = array_sort (tab_count_cmp ''desc'') ws"
    using sortWindows_tab_count [of "''desc''" lc ws] by simp
  show ?thesis
    unfolding a d by (simp add: tab_count_asc_sorted tab_count_desc_sorted mset_array_sort)
qed

theorem tab_count_order_example:
  "map windowId (sortWindows code_unit_compare [win_a, win_b, win_c, win_d] ''tab-count-asc'')
     = [2, 4, 3, 1] \<and>
   map windowId (sortWindows code_unit_compare [win_a, win_b, win_c, win_d] ''tab-count-desc'')
     = [1, 4, 3, 2] \<and>
   sorted_wrt count_then_focus_asc
     (sortWindows code_unit_compare [win_a, win_b, win_c, win_d] ''tab-count-asc'') \<and>
   sorted_wrt count_then_focus_desc
     (sortWindows code_unit_compare [win_a, win_b, win_c, win_d] ''tab-count-desc'')"
proof -
  have ev: "map windowId
        (sortWindows code_unit_compare [win_a, win_b, win_c, win_d] ''tab-count-asc'')
        = [2, 4, 3, 1] \<and>
      map windowId
        (sortWindows code_unit_compare [win_a, win_b, win_c, win_d] ''tab-count-desc'')
        = [1, 4, 3, 2]"
    by code_simp
  show ?thesis
    using ev tab_count_order [where lc = code_unit_compare and ws = "[win_a, win_b, win_c, win_d]"]
    by blast
qed

text \<open>
  C6. For a preference whose type part, the text before its last \<^verbatim>\<open>-\<close>, is none of the four
  sort types, \<^verbatim>\<open>sortWindows\<close> returns the windows in their input order; for every
  preference the result is a rearrangement of the input.
\<close>

theorem sortWindows_unknown_type_identity:
  "(sortType_of sortBy \<notin> {''tab-count'', ''focused'', ''alphabetical'', ''last-accessed''}
      \<longrightarrow> sortWindows lc windows sortBy = windows) \<and>
   mset (sortWindows lc windows sortBy) = mset windows"
  by (simp add: mset_sortWindows) (simp add: sortWindows_def sortType_of_def Let_def)

theorem sortWindows_unknown_type_identity_witness:
  "sortType_of ''recent-asc'' = ''recent'' \<and>
   sortType_of ''recent-asc'' \<notin> {''tab-count'', ''focused'', ''alphabetical'', ''last-accessed''} \<and>
   sortWindows code_unit_compare [win_a, win_b, win_c] ''recent-asc'' = [win_a, win_b, win_c] \<and>
   mset (sortWindows code_unit_compare [win_a, win_b, win_c] ''focused-desc'') =
     mset [win_a, win_b, win_c]"
proof -
  have ev: "sortType_of ''recent-asc'' = ''recent'' \<and>
      sortType_of ''recent-asc'' \<notin>
        {''tab-count'', ''focused'', ''alphabetical'', ''last-accessed''}"
    by code_simp
  show ?thesis
    using ev
      sortWindows_unknown_type_identity
        [where sortBy = "''recent-asc''" and lc = code_unit_compare
           and windows = "[win_a, win_b, win_c]"]
      sortWindows_unknown_type_identity
        [where sortBy = "''focused-desc''" and lc = code_unit_compare
           and windows = "[win_a, win_b, win_c]"]
    by blast
qed

text \<open>
  C7. The three outputs of the filter agree: the total is the sum of the tab counts of the
  groups kept, the window count is the number of windows with at least one matching tab,
  which is the number of groups kept, and the groups kept are, in order, the unchanged
  records of exactly those windows, each with its matching tabs.
\<close>

theorem search_filter_consistent:
  "totalTabs (search_filter cw ws sq) =
     sum_list (map (\<lambda>g. length (group_tabs g)) (filteredWindows (search_filter cw ws sq))) \<and>
   windowCount (search_filter cw ws sq) = length (filter (has_match (toLowerCase sq)) ws) \<and>
   windowCount (search_filter cw ws sq) = length (filteredWindows (search_filter cw ws sq)) \<and>
   map group_window (filteredWindows (search_filter cw ws sq)) =
     filter (has_match (toLowerCase sq)) ws \<and>
   map group_tabs (filteredWindows (search_filter cw ws sq)) =
     map (filteredTabs (toLowerCase sq)) (filter (has_match (toLowerCase sq)) ws)"
  by (simp add: search_filter_eq comp_def make_group_def sum_filtered_has_match)

theorem search_filter_consistent_example:
  "totalTabs (search_filter Map.empty [win_a, win_b, win_d] ''Git'') = 2 \<and>
   windowCount (search_filter Map.empty [win_a, win_b, win_d] ''Git'') = 2 \<and>
   filter (has_match (toLowerCase ''Git'')) [win_a, win_b, win_d] = [win_b, win_d] \<and>
   map group_window (filteredWindows (search_filter Map.empty [win_a, win_b, win_d] ''Git''))
     = filter (has_match (toLowerCase ''Git'')) [win_a, win_b, win_d] \<and>
   windowCount (search_filter Map.empty [win_a, win_b, win_d] ''Git'') =
     length (filteredWindows (search_filter Map.empty [win_a, win_b, win_d] ''Git''))"
proof -
  have ev: "totalTabs (search_filter Map.empty [win_a, win_b, win_d] ''Git'') = 2 \<and>
      windowCount (search_filter Map.empty [win_a, win_b, win_d] ''Git'') = 2 \<and>
      filter (has_match (toLowerCase ''Git'')) [win_a, win_b, win_d] = [win_b, win_d]"
    by code_simp
  show ?thesis
    using ev search_filter_consistent [where cw = Map.empty and ws = "[win_a, win_b, win_d]"
            and sq = "''Git''"]
    by blast
qed

text \<open>
  C8. Over a sequence of at least one event in which every event follows the one before
  it by less than 300 time units, started with no timer pending, no recomputation runs
  before 300 units after the last event, and exactly one has run from then on, at that
  time. After any history, handling an event leaves exactly one timer pending, due 300
  units later: arming cancels the timer that was pending.
\<close>

theorem debounce_coalesces:
  assumes "es \<noteq> []" and "quiet_gaps es"
  shows "(fst (last es) + 300 \<le> horizon \<longrightarrow>
            map fst (renders (run_until horizon popup_init es)) = [fst (last es) + 300]) \<and>
         (horizon < fst (last es) + 300 \<longrightarrow> renders (run_until horizon popup_init es) = []) \<and>
         map (\<lambda>(h, d, cb). d) (timers (handle_event t e (fire_due t (run popup_init past))))
           = [t + 300]"
proof -
  from run_quiet_init [OF assms]
  have arm: "armed_at (fst (last es)) (run popup_init es)"
    and log: "renders (run popup_init es) = []"
    by simp_all
  have late: "fst (last es) + 300 \<le> horizon \<Longrightarrow>
      map fst (renders (run_until horizon popup_init es)) = [fst (last es) + 300]"
    using fire_due_late [OF arm, of horizon] log by (simp add: run_until_def)
  have early: "horizon < fst (last es) + 300 \<Longrightarrow> renders (run_until horizon popup_init es) = []"
    using fire_due_early [OF arm, of horizon] log by (simp add: run_until_def)
  have "one_pending popup_init" by (simp add: one_pending_def popup_init_def)
  then have "one_pending (fire_due t (run popup_init past))"
    by (intro fire_due_one_pending run_one_pending)
  from handle_event_armed [OF this, of t e]
  have cancel:
    "map (\<lambda>(h, d, cb). d) (timers (handle_event t e (fire_due t (run popup_init past))))
       = [t + 300]"
    by (auto simp: armed_at_def)
  from late early cancel show ?thesis by blast
qed

theorem debounce_coalesces_witness:
  "burst \<noteq> [] \<and> quiet_gaps burst \<and> fst (last burst) = 350 \<and>
   map fst (renders (run_until 1000 popup_init burst)) = [650] \<and>
   renders (run_until 1000 popup_init burst) = [(650, ''git'')] \<and>
   renders (run_until 649 popup_init burst) = []"
proof -
  have ev: "burst \<noteq> [] \<and> quiet_gaps burst \<and> fst (last burst) = 350 \<and>
      renders (run_until 1000 popup_init burst) = [(650, ''git'')]"
    by code_simp
  then have hyp: "burst \<noteq> []" "quiet_gaps burst" and l: "fst (last burst) = 350" by simp_all
  from debounce_coalesces [OF hyp, where horizon = 1000] l
  have late: "map fst (renders (run_until 1000 popup_init burst)) = [650]" by simp
  from debounce_coalesces [OF hyp, where horizon = 649] l
  have early: "renders (run_until 649 popup_init burst) = []" by simp
  from ev late early show ?thesis by blast
qed

text \<open>
  C9. The claim: for every window \<open>W\<close>, a toggle followed by a reload of the map from the
  preference store gives \<open>W\<close> the negation of the value it had before the toggle. The
  toggle starts the write and neither awaits nor checks it, so the write can fail: with
  window 3 collapsed in the store and in memory, a toggle whose write fails shows the
  window expanded, and a reload reads it as collapsed again, the value it had before.
\<close>

theorem collapse_round_trip_lost_write:
  "isCollapsed (loadCollapsedState collapsed_3_store) 3 \<and>
   \<not> isCollapsed
       (fst (fst (toggleWindowCollapse Write_failed 3
                    (loadCollapsedState collapsed_3_store, collapsed_3_store)))) 3 \<and>
   isCollapsed
     (loadCollapsedState
        (snd (fst (toggleWindowCollapse Write_failed 3
                     (loadCollapsedState collapsed_3_store, collapsed_3_store))))) 3 \<and>
   isCollapsed
     (loadCollapsedState
        (snd (fst (toggleWindowCollapse Write_failed 3
                     (loadCollapsedState collapsed_3_store, collapsed_3_store))))) 3
     \<noteq> (\<not> isCollapsed (loadCollapsedState collapsed_3_store) 3)"
  by (simp add: toggleWindowCollapse_def saveCollapsedState_def loadCollapsedState_def
        isCollapsed_def collapsed_3_store_def Let_def)

text \<open>
  C9, as amended. A toggle for window \<open>W\<close> whose write reaches the store, followed by a
  reload of the map from the store, gives \<open>W\<close> the negation of the value it had before the
  toggle; in memory the value is negated whatever becomes of the write. A window that
  was never toggled reads as not collapsed, in memory and after a reload.
\<close>

theorem collapse_round_trip:
  "loadCollapsedState (snd (fst (toggleWindowCollapse Written W (cw, st)))) W
     = Some (\<not> isCollapsed cw W) \<and>
   isCollapsed (loadCollapsedState (snd (fst (toggleWindowCollapse Written W (cw, st))))) W
     = (\<not> isCollapsed cw W) \<and>
   isCollapsed (fst (fst (toggleWindowCollapse outcome W (cw, st)))) W
     = (\<not> isCollapsed cw W) \<and>
   (V \<notin> snd ` set ts \<longrightarrow>
      \<not> isCollapsed (fst (toggle_all ts (loadCollapsedState fresh_store, fresh_store))) V \<and>
      \<not> isCollapsed
          (loadCollapsedState (snd (toggle_all ts (loadCollapsedState fresh_store, fresh_store))))
          V)"
proof -
  have trip: "loadCollapsedState (snd (fst (toggleWindowCollapse Written W (cw, st)))) W
      = Some (\<not> isCollapsed cw W)"
    by (simp add: toggleWindowCollapse_def saveCollapsedState_def loadCollapsedState_def Let_def)
  have flipped:
    "isCollapsed (loadCollapsedState (snd (fst (toggleWindowCollapse Written W (cw, st))))) W
      = (\<not> isCollapsed cw W)"
    unfolding isCollapsed_def [of "loadCollapsedState _"] trip by simp
  have memory: "isCollapsed (fst (fst (toggleWindowCollapse outcome W (cw, st)))) W
      = (\<not> isCollapsed cw W)"
    by (simp add: toggleWindowCollapse_def isCollapsed_def Let_def)
  have start: "fst (loadCollapsedState fresh_store, fresh_store) V = None"
    "loadCollapsedState (snd (loadCollapsedState fresh_store, fresh_store)) V = None"
    by (simp_all add: loadCollapsedState_def fresh_store_def)
  have "V \<notin> snd ` set ts \<Longrightarrow>
      \<not> isCollapsed (fst (toggle_all ts (loadCollapsedState fresh_store, fresh_store))) V \<and>
      \<not> isCollapsed
          (loadCollapsedState (snd (toggle_all ts (loadCollapsedState fresh_store, fresh_store))))
          V"
    using toggle_all_untouched [OF _ start, of ts] by (simp add: isCollapsed_def)
  with trip flipped memory show ?thesis by blast
qed

theorem collapse_round_trip_witness:
  "(5::int) \<notin> snd ` set [(Written, 3), (Write_failed, 4), (Written, 3)] \<and>
   isCollapsed (loadCollapsedState
       (snd (fst (toggleWindowCollapse Written 3 (Map.empty, fresh_store))))) 3 \<and>
   \<not> isCollapsed
       (fst (toggle_all [(Written, 3), (Write_failed, 4), (Written, 3)]
               (loadCollapsedState fresh_store, fresh_store))) 5"
proof -
  have hyp: "(5::int) \<notin> snd ` set [(Written, 3), (Write_failed, 4), (Written, 3)]" by simp
  have before: "\<not> isCollapsed Map.empty (3::int)" by (simp add: isCollapsed_def)
  from collapse_round_trip
         [where W = 3 and cw = Map.empty and st = fresh_store and V = 5
            and outcome = Written and ts = "[(Written, 3), (Write_failed, 4), (Written, 3)]"]
       hyp before
  show ?thesis by blast
qed

text \<open>
  C10. For the sort types \<^verbatim>\<open>tab-count\<close>, \<^verbatim>\<open>alphabetical\<close> and \<^verbatim>\<open>last-accessed\<close>, a direction
  that contains no \<^verbatim>\<open>-\<close> and is not \<^verbatim>\<open>asc\<close> gives the same result as \<^verbatim>\<open>desc\<close>.
\<close>

theorem direction_not_asc_is_desc:
  assumes "CHR ''-'' \<notin> set d" and "d \<noteq> ''asc''"
    and "ty \<in> {''tab-count'', ''alphabetical'', ''last-accessed''}"
  shows "sortWindows lc ws (ty @ ''-'' @ d) = sortWindows lc ws (ty @ ''-'' @ ''desc'')"
proof -
  have desc: "CHR ''-'' \<notin> set ''desc''" by simp
  have "sortWindows lc ws (ty @ CHR ''-'' # d) = sortWindows lc ws (ty @ CHR ''-'' # ''desc'')"
    unfolding sortWindows_split [OF assms(1)] sortWindows_split [OF desc]
    using cmp_not_asc [OF assms(2)] by simp
  then show ?thesis by simp
qed

theorem direction_not_asc_is_desc_witness:
  "CHR ''-'' \<notin> set ''DESC'' \<and> ''DESC'' \<noteq> ''asc'' \<and>
   ''tab-count'' \<in> {''tab-count'', ''alphabetical'', ''last-accessed''} \<and>
   sortWindows code_unit_compare [win_a, win_b, win_c, win_d] (''tab-count'' @ ''-'' @ ''DESC'') =
     sortWindows code_unit_compare [win_a, win_b, win_c, win_d] (''tab-count'' @ ''-'' @ ''desc'') \<and>
   map windowId
     (sortWindows code_unit_compare [win_a, win_b, win_c, win_d] (''tab-count'' @ ''-'' @ ''DESC''))
     = [1, 4, 3, 2] \<and>
   sortWindows code_unit_compare [win_a, win_b] (''alphabetical'' @ ''-'' @ []) =
     sortWindows code_unit_compare [win_a, win_b] (''alphabetical'' @ ''-'' @ ''desc'')"
proof -
  have h1: "CHR ''-'' \<notin> set ''DESC''" and h2: "''DESC'' \<noteq> ''asc''"
    and h3: "''tab-count'' \<in> {''tab-count'', ''alphabetical'', ''last-accessed''}"
    and g1: "CHR ''-'' \<notin> set []" and g2: "[] \<noteq> ''asc''"
    and g3: "''alphabetical'' \<in> {''tab-count'', ''alphabetical'', ''last-accessed''}"
    by simp_all
  have ev: "map windowId
      (sortWindows code_unit_compare [win_a, win_b, win_c, win_d]
         (''tab-count'' @ ''-'' @ ''DESC'')) = [1, 4, 3, 2]"
    by code_simp
  from direction_not_asc_is_desc [OF h1 h2 h3] direction_not_asc_is_desc [OF g1 g2 g3]
    h1 h2 h3 ev
  show ?thesis by blast
qed

end
